theory Spec2Isabelle
  imports Main "HOL-Library.Sublist" "HOL-Library.Char_ord" "HOL-Library.List_Lexorder"
begin

section \<open>Characters and string helpers\<close>

text \<open>
  Python strings are modelled as \<^typ>\<open>string\<close>: a character is a code point below 256
  (\<^verbatim>\<open>CHR 0xE9\<close> is U+00E9), and a string of the model is a Python string that holds
  such code points only. The character classes below are the ones the regular expressions
  and string methods of \<^verbatim>\<open>analyze_logs.py\<close> use, as Python defines them on these code
  points: \<^verbatim>\<open>\d\<close> (decimal digits), \<^verbatim>\<open>\w\<close> (alphanumeric characters and the underscore),
  the whitespace removed by \<^verbatim>\<open>str.strip()\<close>, and the letter case mappings behind
  \<^verbatim>\<open>str.lower()\<close>, \<^verbatim>\<open>str.upper()\<close> and \<^verbatim>\<open>re.IGNORECASE\<close>. Code points from 256 on are
  outside the model.
\<close>

definition digits :: string where
  "digits = ''0123456789''"

definition lowers :: string where
  "lowers = ''abcdefghijklmnopqrstuvwxyz''"

definition uppers :: string where
  "uppers = ''ABCDEFGHIJKLMNOPQRSTUVWXYZ''"

text \<open>
  The letters from U+00C0 to U+00FE that have both cases among these code points, and the
  other alphanumeric characters from U+0080 on (ordinal indicators, superscript digits,
  the micro sign, fractions, sharp s and y with diaeresis).
\<close>

definition latin1_uppers :: string where
  "latin1_uppers =
     [CHR 0xC0, CHR 0xC1, CHR 0xC2, CHR 0xC3, CHR 0xC4, CHR 0xC5, CHR 0xC6,
      CHR 0xC7, CHR 0xC8, CHR 0xC9, CHR 0xCA, CHR 0xCB, CHR 0xCC, CHR 0xCD,
      CHR 0xCE, CHR 0xCF, CHR 0xD0, CHR 0xD1, CHR 0xD2, CHR 0xD3, CHR 0xD4,
      CHR 0xD5, CHR 0xD6, CHR 0xD8, CHR 0xD9, CHR 0xDA, CHR 0xDB, CHR 0xDC,
      CHR 0xDD, CHR 0xDE]"

definition latin1_lowers :: string where
  "latin1_lowers =
     [CHR 0xE0, CHR 0xE1, CHR 0xE2, CHR 0xE3, CHR 0xE4, CHR 0xE5, CHR 0xE6,
      CHR 0xE7, CHR 0xE8, CHR 0xE9, CHR 0xEA, CHR 0xEB, CHR 0xEC, CHR 0xED,
      CHR 0xEE, CHR 0xEF, CHR 0xF0, CHR 0xF1, CHR 0xF2, CHR 0xF3, CHR 0xF4,
      CHR 0xF5, CHR 0xF6, CHR 0xF8, CHR 0xF9, CHR 0xFA, CHR 0xFB, CHR 0xFC,
      CHR 0xFD, CHR 0xFE]"

definition latin1_others :: string where
  "latin1_others =
     [CHR 0xAA, CHR 0xB2, CHR 0xB3, CHR 0xB5, CHR 0xB9, CHR 0xBA, CHR 0xBC,
      CHR 0xBD, CHR 0xBE, CHR 0xDF, CHR 0xFF]"

definition is_digit :: "char \<Rightarrow> bool" where
  "is_digit c = (c \<in> set digits)"

definition is_word_char :: "char \<Rightarrow> bool" where
  "is_word_char c =
     (c \<in> set (lowers @ uppers @ digits @ ''_'' @ latin1_uppers @ latin1_lowers @ latin1_others))"

definition is_space :: "char \<Rightarrow> bool" where
  "is_space c = (c \<in> set [CHR 0x09, CHR 0x0A, CHR 0x0B, CHR 0x0C, CHR 0x0D,
                            CHR 0x1C, CHR 0x1D, CHR 0x1E, CHR 0x1F, CHR '' '',
                            CHR 0x85, CHR 0xA0])"

definition lower_char :: "char \<Rightarrow> char" where
  "lower_char c =
     (case map_of (zip (uppers @ latin1_uppers) (lowers @ latin1_lowers)) c of
        Some d \<Rightarrow> d
      | None \<Rightarrow> c)"

text \<open>
  \<^verbatim>\<open>str.upper()\<close> is called on a matched severity token only. The upper-case forms of
  the micro sign, sharp s and y with diaeresis are not among these code points; these
  three characters match no letter of a severity keyword and so never stand in a token.
\<close>

definition upper_char :: "char \<Rightarrow> char" where
  "upper_char c =
     (case map_of (zip (lowers @ latin1_lowers) (uppers @ latin1_uppers)) c of
        Some d \<Rightarrow> d
      | None \<Rightarrow> c)"

definition lower :: "string \<Rightarrow> string" where
  "lower s = map lower_char s"

definition upper :: "string \<Rightarrow> string" where
  "upper s = map upper_char s"

text \<open>\<^verbatim>\<open>s.strip()\<close>: leading and trailing whitespace removed.\<close>

definition strip :: "string \<Rightarrow> string" where
  "strip s = rev (dropWhile is_space (rev (dropWhile is_space s)))"

text \<open>\<^verbatim>\<open>sub in s\<close> for strings.\<close>

fun contains :: "string \<Rightarrow> string \<Rightarrow> bool" where
  "contains sub [] = (sub = [])"
| "contains sub (c # cs) = (prefix sub (c # cs) \<or> contains sub cs)"

text \<open>
  \<^verbatim>\<open>s.split(sep, 1)[-1]\<close> for a non-empty separator: the text after the first occurrence
  of \<open>sep\<close>, and the whole of \<open>s\<close> when \<open>sep\<close> does not occur (the split then has one
  element). Both call sites pass a non-empty separator.
\<close>

fun find_after :: "string \<Rightarrow> string \<Rightarrow> string option" where
  "find_after sep [] = None"
| "find_after sep (c # cs) =
     (if prefix sep (c # cs) then Some (drop (length sep) (c # cs)) else find_after sep cs)"

definition split_last :: "string \<Rightarrow> string \<Rightarrow> string" where
  "split_last sep s = (case find_after sep s of Some r \<Rightarrow> r | None \<Rightarrow> s)"

section \<open>Regular expressions of the source\<close>

text \<open>
  \<^verbatim>\<open>\b\<close> at a position, given the character before it (if any) and the text from it on:
  exactly one of the two neighbours is a word character.
\<close>

definition word_boundary :: "char option \<Rightarrow> string \<Rightarrow> bool" where
  "word_boundary prev rest =
     ((case prev of None \<Rightarrow> False | Some c \<Rightarrow> is_word_char c) \<noteq>
      (case rest of [] \<Rightarrow> False | c # _ \<Rightarrow> is_word_char c))"

text \<open>The character before the position reached after consuming \<open>m\<close>.\<close>

definition last_char :: "char option \<Rightarrow> string \<Rightarrow> char option" where
  "last_char prev m = (if m = [] then prev else Some (last m))"

text \<open>
  A fixed-length pattern is a list of one-character tests; \<open>match_seq\<close> matches it at the
  start of the text and returns the matched text with what follows.
\<close>

fun match_seq :: "(char \<Rightarrow> bool) list \<Rightarrow> string \<Rightarrow> (string \<times> string) option" where
  "match_seq [] s = Some ([], s)"
| "match_seq (p # ps) [] = None"
| "match_seq (p # ps) (c # cs) =
     (if p c then (case match_seq ps cs of Some (m, r) \<Rightarrow> Some (c # m, r) | None \<Rightarrow> None)
      else None)"

definition lit :: "char \<Rightarrow> char \<Rightarrow> bool" where
  "lit a c = (c = a)"

definition one_of :: "string \<Rightarrow> char \<Rightarrow> bool" where
  "one_of cs c = (c \<in> set cs)"

text \<open>
  A letter of the pattern under \<^verbatim>\<open>re.IGNORECASE\<close>: the character matches when its
  lower-case form is that of the letter. For the letters of the severity keywords this is
  exact on the code points of the model; beyond them Python also lets U+0130 and U+0131
  match the letter I.
\<close>

definition lit_ci :: "char \<Rightarrow> char \<Rightarrow> bool" where
  "lit_ci a c = (lower_char c = lower_char a)"

subsection \<open>The identifier mask and the number mask\<close>

text \<open>
  \<^verbatim>\<open>re.sub(r'\b[a-f0-9\-]{8,}\b', '<ID>', error)\<close>. The class is lower-case only and no
  flag is passed. At a position with a word boundary the greedy quantifier takes the whole
  run of class characters and gives characters back, down to eight, until the closing
  \<^verbatim>\<open>\b\<close> holds; \<open>id_match\<close> returns the length of the match.
\<close>

definition is_id_char :: "char \<Rightarrow> bool" where
  "is_id_char c = (c \<in> set ''abcdef0123456789-'')"

text \<open>The lower-case hexadecimal digits: the word characters of the class.\<close>

definition is_hex_lower :: "char \<Rightarrow> bool" where
  "is_hex_lower c = (c \<in> set ''abcdef0123456789'')"

definition id_match :: "char option \<Rightarrow> string \<Rightarrow> nat option" where
  "id_match prev s =
     (if word_boundary prev s
      then find (\<lambda>n. word_boundary (last_char prev (take n s)) (drop n s))
             (rev [8 ..< Suc (length (takeWhile is_id_char s))])
      else None)"

text \<open>
  The pattern itself, for comparison with the scan: \<^verbatim>\<open>\b[a-f0-9\-]{8,}\b\<close> matches the
  first \<open>n\<close> characters of \<open>s\<close>, the character before \<open>s\<close> being \<open>prev\<close>. There are
  at least eight of them, each from the class, with a word boundary before the first and
  after the last.
\<close>

definition id_pattern_matches :: "char option \<Rightarrow> string \<Rightarrow> nat \<Rightarrow> bool" where
  "id_pattern_matches prev s n =
     (8 \<le> n \<and> n \<le> length s \<and> (\<forall>c\<in>set (take n s). c \<in> set ''abcdef0123456789-'') \<and>
      word_boundary prev s \<and> word_boundary (last_char prev (take n s)) (drop n s))"

function sub_id :: "char option \<Rightarrow> string \<Rightarrow> string" where
  "sub_id prev [] = []"
| "sub_id prev (c # cs) =
     (case id_match prev (c # cs) of
        Some n \<Rightarrow> ''<ID>'' @ sub_id (last_char prev (take n (c # cs))) (drop n (c # cs))
      | None \<Rightarrow> c # sub_id (Some c) cs)"
  by pat_completeness auto

lemma find_SomeD: "find P xs = Some x \<Longrightarrow> x \<in> set xs \<and> P x"
  by (induction xs) (auto split: if_splits)

lemma id_match_pos: "id_match prev s = Some n \<Longrightarrow> 8 \<le> n"
  by (auto simp: id_match_def split: if_splits dest!: find_SomeD)

termination sub_id
  by (relation "measure (\<lambda>(prev, s). length s)") (auto dest: id_match_pos)

text \<open>\<^verbatim>\<open>re.sub(r'\d+', '<NUM>', pattern)\<close>: every maximal run of digits becomes one token.\<close>

function sub_num :: "string \<Rightarrow> string" where
  "sub_num [] = []"
| "sub_num (c # cs) =
     (if is_digit c then ''<NUM>'' @ sub_num (dropWhile is_digit cs) else c # sub_num cs)"
  by pat_completeness auto

termination sub_num
  by (relation "measure length") (auto simp: length_dropWhile_le less_Suc_eq_le)

text \<open>
  Lines 125 and 126 of \<^verbatim>\<open>analyze_log_entries\<close>: the two substitutions in this order
  (the normalization of a message into a pattern).
\<close>

definition normalize_msg :: "string \<Rightarrow> string" where
  "normalize_msg error = sub_num (sub_id None error)"

subsection \<open>Timestamp, severity and component\<close>

text \<open>
  \<^verbatim>\<open>re.search\<close> tries the positions from left to right and, at one position, the
  alternatives in the order they are written; \<open>first_match\<close> is the second part.
\<close>

fun first_match :: "(char \<Rightarrow> bool) list list \<Rightarrow> string \<Rightarrow> (string \<times> string) option" where
  "first_match [] s = None"
| "first_match (ps # pss) s =
     (case match_seq ps s of Some m \<Rightarrow> Some m | None \<Rightarrow> first_match pss s)"

text \<open>
  The timestamp pattern
  \<^verbatim>\<open>(\d{4}-\d{2}-\d{2}[T ]\d{2}:\d{2}:\d{2})|((\d{1,2}/\d{1,2}/\d{4})[ T]\d{2}:\d{2})\<close>.
  Each greedy \<^verbatim>\<open>\d{1,2}\<close> tries two digits before one, so the second alternative
  unfolds into four fixed-length patterns in backtracking order.
\<close>

definition iso_pattern :: "(char \<Rightarrow> bool) list" where
  "iso_pattern =
     replicate 4 is_digit @ [lit CHR ''-''] @ replicate 2 is_digit @ [lit CHR ''-''] @
     replicate 2 is_digit @ [one_of ''T ''] @ replicate 2 is_digit @ [lit CHR '':''] @
     replicate 2 is_digit @ [lit CHR '':''] @ replicate 2 is_digit"

definition slash_pattern :: "nat \<Rightarrow> nat \<Rightarrow> (char \<Rightarrow> bool) list" where
  "slash_pattern m d =
     replicate m is_digit @ [lit CHR ''/''] @ replicate d is_digit @ [lit CHR ''/''] @
     replicate 4 is_digit @ [one_of '' T''] @ replicate 2 is_digit @ [lit CHR '':''] @
     replicate 2 is_digit"

definition timestamp_patterns :: "(char \<Rightarrow> bool) list list" where
  "timestamp_patterns =
     [iso_pattern, slash_pattern 2 2, slash_pattern 2 1, slash_pattern 1 2, slash_pattern 1 1]"

fun timestamp_search :: "string \<Rightarrow> string option" where
  "timestamp_search [] = None"
| "timestamp_search (c # cs) =
     (case first_match timestamp_patterns (c # cs) of
        Some (m, _) \<Rightarrow> Some m
      | None \<Rightarrow> timestamp_search cs)"

text \<open>
  The severity pattern \<^verbatim>\<open>\b(ERROR|INFO|WARNING|DEBUG|CRITICAL|WARN|FATAL)\b\<close> with
  \<^verbatim>\<open>re.IGNORECASE\<close>. A match is returned as the matched text (\<^verbatim>\<open>group(0)\<close>, which is
  also \<^verbatim>\<open>group(1)\<close>) together with the text after the match.
\<close>

definition SEVERITIES :: "string list" where
  "SEVERITIES = [''ERROR'', ''INFO'', ''WARNING'', ''DEBUG'', ''CRITICAL'', ''WARN'', ''FATAL'']"

fun severity_alts :: "string list \<Rightarrow> string \<Rightarrow> (string \<times> string) option" where
  "severity_alts [] s = None"
| "severity_alts (kw # kws) s =
     (case match_seq (map lit_ci kw) s of
        Some (tok, rest) \<Rightarrow>
          if word_boundary (last_char None tok) rest then Some (tok, rest)
          else severity_alts kws s
      | None \<Rightarrow> severity_alts kws s)"

definition severity_at :: "char option \<Rightarrow> string \<Rightarrow> (string \<times> string) option" where
  "severity_at prev s = (if word_boundary prev s then severity_alts SEVERITIES s else None)"

fun severity_search :: "char option \<Rightarrow> string \<Rightarrow> (string \<times> string) option" where
  "severity_search prev [] = None"
| "severity_search prev (c # cs) =
     (case severity_at prev (c # cs) of
        Some m \<Rightarrow> Some m
      | None \<Rightarrow> severity_search (Some c) cs)"

text \<open>
  The component pattern \<^verbatim>\<open>\[([^\]]+)\]\<close>: an opening bracket, the longest non-empty run
  of characters other than the closing bracket, and a closing bracket. Giving characters
  of the run back cannot help, since the character after a shorter run is not a closing
  bracket. A match is returned as \<^verbatim>\<open>group(1)\<close> together with the text after the match.
\<close>

fun component_search :: "string \<Rightarrow> (string \<times> string) option" where
  "component_search [] = None"
| "component_search (c # cs) =
     (if c = CHR ''['' \<and> takeWhile (\<lambda>x. x \<noteq> CHR '']'') cs \<noteq> [] \<and>
         dropWhile (\<lambda>x. x \<noteq> CHR '']'') cs \<noteq> []
      then Some (takeWhile (\<lambda>x. x \<noteq> CHR '']'') cs, tl (dropWhile (\<lambda>x. x \<noteq> CHR '']'') cs))
      else component_search cs)"

section \<open>Entry parser\<close>

record log_entry =
  raw :: string
  timestamp :: "string option"
  severity :: string
  component :: "string option"
  message :: string

text \<open>Lines 82 to 85 of \<^verbatim>\<open>parse_log_entry\<close>: the text the component is searched in.\<close>

definition remainder_of :: "string \<Rightarrow> string" where
  "remainder_of line =
     (case severity_search None line of
        Some (tok, _) \<Rightarrow> strip (split_last tok line)
      | None \<Rightarrow> line)"

definition parse_log_entry :: "string \<Rightarrow> log_entry" where
  "parse_log_entry line =
     (let sev = (case severity_search None line of
                   Some (tok, _) \<Rightarrow> upper tok
                 | None \<Rightarrow> ''UNKNOWN'');
          remainder = remainder_of line
      in (case component_search remainder of
            Some (name, _) \<Rightarrow>
              \<lparr>raw = line, timestamp = timestamp_search line, severity = sev,
               component = Some name, message = strip (split_last '']:'' remainder)\<rparr>
          | None \<Rightarrow>
              \<lparr>raw = line, timestamp = timestamp_search line, severity = sev,
               component = None, message = remainder\<rparr>))"

section \<open>Aggregator\<close>

text \<open>
  An element of the batch, as \<^verbatim>\<open>search_files\<close> and \<^verbatim>\<open>load_csv_logs\<close> build it. The
  field \<open>file_path\<close> is the key \<^verbatim>\<open>file\<close>.
\<close>

record entry =
  file_path :: string
  line_number :: "nat option"
  content :: string

text \<open>
  A \<^verbatim>\<open>Counter\<close> and a \<^verbatim>\<open>defaultdict(list)\<close> are dictionaries, which keep their keys in
  insertion order: association lists with distinct keys, a new key going to the end.
\<close>

type_synonym 'k counter = "('k \<times> nat) list"

fun counter_inc :: "'k \<Rightarrow> 'k counter \<Rightarrow> 'k counter" where
  "counter_inc k [] = [(k, 1)]"
| "counter_inc k ((k', n) # kvs) =
     (if k = k' then (k', n + 1) # kvs else (k', n) # counter_inc k kvs)"

fun dict_append :: "'k \<Rightarrow> 'v \<Rightarrow> ('k \<times> 'v list) list \<Rightarrow> ('k \<times> 'v list) list" where
  "dict_append k v [] = [(k, [v])]"
| "dict_append k v ((k', vs) # kvs) =
     (if k = k' then (k', vs @ [v]) # kvs else (k', vs) # dict_append k v kvs)"

text \<open>\<^verbatim>\<open>Counter(xs)\<close> counts the elements of \<open>xs\<close> from left to right.\<close>

definition Counter :: "'k list \<Rightarrow> 'k counter" where
  "Counter xs = foldl (\<lambda>c k. counter_inc k c) [] xs"

text \<open>
  \<^verbatim>\<open>Counter.most_common(n)\<close>: the \<open>n\<close> items with the highest counts, highest first,
  items with equal counts in the order first encountered.
\<close>

definition most_common :: "nat \<Rightarrow> 'k counter \<Rightarrow> 'k counter" where
  "most_common n c = take n (sort_key (\<lambda>(k, cnt). - int cnt) c)"

text \<open>
  The variables the loop over the entries updates (lines 97 to 100); \<open>component_counts\<close>
  is the local variable \<^verbatim>\<open>components\<close>.
\<close>

record acc =
  severities :: "string counter"
  component_counts :: "string counter"
  errors_by_component :: "(string \<times> string list) list"
  timestamps :: "string list"

definition acc_init :: acc where
  "acc_init = \<lparr>severities = [], component_counts = [], errors_by_component = [], timestamps = []\<rparr>"

text \<open>The body of the loop (lines 102 to 109).\<close>

definition is_error_severity :: "string \<Rightarrow> bool" where
  "is_error_severity s = (s \<in> set [''ERROR'', ''CRITICAL'', ''FATAL''])"

definition step :: "acc \<Rightarrow> entry \<Rightarrow> acc" where
  "step a e =
     (let parsed = parse_log_entry (content e);
          a1 = a\<lparr>severities := counter_inc (severity parsed) (severities a)\<rparr>;
          a2 = (case component parsed of
                  Some c \<Rightarrow>
                    (let b = a1\<lparr>component_counts := counter_inc c (component_counts a1)\<rparr>
                     in if is_error_severity (severity parsed)
                        then b\<lparr>errors_by_component :=
                                 dict_append c (message parsed) (errors_by_component b)\<rparr>
                        else b)
                | None \<Rightarrow> a1)
      in (case timestamp parsed of
            Some t \<Rightarrow> a2\<lparr>timestamps := timestamps a2 @ [t]\<rparr>
          | None \<Rightarrow> a2))"

record time_pattern_info =
  first_occurrence :: string
  last_occurrence :: string
  total_occurrences :: nat

text \<open>Lines 110 to 120. Strings always compare, so the sort cannot raise.\<close>

definition time_pattern_of :: "string list \<Rightarrow> time_pattern_info option" where
  "time_pattern_of ts =
     (if ts = [] then None
      else Some \<lparr>first_occurrence = hd (sort ts), last_occurrence = last (sort ts),
                  total_occurrences = length (sort ts)\<rparr>)"

text \<open>Lines 121 to 127: the list of (component, pattern) pairs.\<close>

definition error_pattern_keys :: "(string \<times> string list) list \<Rightarrow> (string \<times> string) list" where
  "error_pattern_keys ebc =
     concat (map (\<lambda>(c, errors).
                    map (\<lambda>error. (c, normalize_msg error))
                      (filter (\<lambda>error. error \<noteq> [] \<and> length error > 10) errors))
               ebc)"

text \<open>
  The two tests an entry passes before its message is appended to a buffer (lines 104 and
  106): the parse produced a component, and the severity is one of the three error levels.
\<close>

definition contributes :: "entry \<Rightarrow> bool" where
  "contributes e =
     (component (parse_log_entry (content e)) \<noteq> None \<and>
      is_error_severity (severity (parse_log_entry (content e))))"

text \<open>
  A message \<open>m\<close> is buffered under component \<open>c\<close>; and an entry from which such a
  buffered message originates.
\<close>

definition buffered :: "(string \<times> string list) list \<Rightarrow> string \<Rightarrow> string \<Rightarrow> bool" where
  "buffered ebc c m = (\<exists>ms. (c, ms) \<in> set ebc \<and> m \<in> set ms)"

definition origin :: "entry \<Rightarrow> string \<Rightarrow> string \<Rightarrow> bool" where
  "origin e c m =
     (component (parse_log_entry (content e)) = Some c \<and>
      is_error_severity (severity (parse_log_entry (content e))) \<and>
      message (parse_log_entry (content e)) = m)"

text \<open>The list \<^verbatim>\<open>error_patterns\<close> of lines 121 to 127, as a function of the batch.\<close>

definition pattern_keys :: "entry list \<Rightarrow> (string \<times> string) list" where
  "pattern_keys entries = error_pattern_keys (errors_by_component (foldl step acc_init entries))"

text \<open>The position at which \<open>k\<close> first occurs in \<open>xs\<close>.\<close>

definition first_seen :: "'a list \<Rightarrow> 'a \<Rightarrow> nat" where
  "first_seen xs k = length (takeWhile (\<lambda>x. x \<noteq> k) xs)"

text \<open>\<^verbatim>\<open>c[k]\<close> on a counter: zero for a key that is not there.\<close>

definition counter_get :: "'k counter \<Rightarrow> 'k \<Rightarrow> nat" where
  "counter_get c k = (case map_of c k of Some n \<Rightarrow> n | None \<Rightarrow> 0)"

text \<open>
  The returned dictionaries. In an error pattern the field \<open>ep_component\<close> is the key
  \<^verbatim>\<open>component\<close>.
\<close>

record error_pattern =
  ep_component :: string
  pattern :: string
  count :: nat

record analysis =
  total_entries :: nat
  severity_distribution :: "string counter"
  components :: "string counter"
  time_pattern :: "time_pattern_info option"
  error_patterns :: "error_pattern list"

definition analyze_log_entries :: "entry list \<Rightarrow> analysis" where
  "analyze_log_entries entries =
     (let a = foldl step acc_init entries;
          common_patterns = most_common 10 (Counter (error_pattern_keys (errors_by_component a)))
      in \<lparr>total_entries = length entries,
          severity_distribution = severities a,
          components = component_counts a,
          time_pattern = time_pattern_of (timestamps a),
          error_patterns =
            map (\<lambda>((c, pat), n). \<lparr>ep_component = c, pattern = pat, count = n\<rparr>)
              common_patterns\<rparr>)"

section \<open>Solution advisor\<close>

record suggestion =
  problem :: string
  solution :: string

definition connection_issues :: suggestion where
  "connection_issues =
     \<lparr>problem = ''Connection issues'',
      solution = ''Check network settings, server availability, and timeouts.''\<rparr>"

definition permission_issues :: suggestion where
  "permission_issues =
     \<lparr>problem = ''Permission issues'',
      solution = ''Check file and system permissions, user roles, and ACLs.''\<rparr>"

definition resource_limits :: suggestion where
  "resource_limits =
     \<lparr>problem = ''System resource limits'',
      solution = ''Monitor and upgrade resource usage: RAM, CPU, storage.''\<rparr>"

definition uncategorized :: suggestion where
  "uncategorized =
     \<lparr>problem = ''Uncategorized errors'',
      solution = ''Check logs manually. Consider refining component configs.''\<rparr>"

text \<open>
  \<^verbatim>\<open>any(pat for pat in patterns if cond(pat))\<close>: the generator yields the selected
  patterns themselves, and \<^verbatim>\<open>any\<close> asks for a truthy one, that is one that is not
  the empty string.
\<close>

definition any_pattern :: "(string \<Rightarrow> bool) \<Rightarrow> string list \<Rightarrow> bool" where
  "any_pattern cond patterns = list_ex (\<lambda>pat. pat \<noteq> []) (filter cond patterns)"

definition connection_rule :: "string \<Rightarrow> bool" where
  "connection_rule pat = (contains ''connect'' pat \<or> contains ''timeout'' pat)"

definition permission_rule :: "string \<Rightarrow> bool" where
  "permission_rule pat = (contains ''permission'' pat \<or> contains ''denied'' pat)"

definition resource_rule :: "string \<Rightarrow> bool" where
  "resource_rule pat = (contains ''memory'' pat \<or> contains ''cpu'' pat \<or> contains ''disk'' pat)"

text \<open>Line 140: the lower-cased patterns of the analysis.\<close>

definition lowered_patterns :: "analysis \<Rightarrow> string list" where
  "lowered_patterns a = map (\<lambda>item. lower (pattern item)) (error_patterns a)"

definition suggest_solutions :: "analysis \<Rightarrow> suggestion list" where
  "suggest_solutions a =
     (let patterns = lowered_patterns a;
          solutions =
            (if any_pattern connection_rule patterns then [connection_issues] else []) @
            (if any_pattern permission_rule patterns then [permission_issues] else []) @
            (if any_pattern resource_rule patterns then [resource_limits] else [])
      in if solutions = [] then [uncategorized] else solutions)"

section \<open>Properties of the entry parser\<close>

lemmas char_defs =
  digits_def lowers_def uppers_def latin1_uppers_def latin1_lowers_def latin1_others_def

text \<open>The fields of a parsed entry, one by one.\<close>

lemma parse_severity:
  "severity (parse_log_entry line) =
     (case severity_search None line of Some (tok, _) \<Rightarrow> upper tok | None \<Rightarrow> ''UNKNOWN'')"
  by (simp add: parse_log_entry_def Let_def split: option.splits prod.splits)

lemma parse_component:
  "component (parse_log_entry line) = map_option fst (component_search (remainder_of line))"
  by (simp add: parse_log_entry_def Let_def split: option.splits prod.splits)

lemma parse_message:
  "message (parse_log_entry line) =
     (case component_search (remainder_of line) of
        Some _ \<Rightarrow> strip (split_last '']:'' (remainder_of line))
      | None \<Rightarrow> remainder_of line)"
  by (simp add: parse_log_entry_def Let_def split: option.splits prod.splits)

lemma parse_timestamp: "timestamp (parse_log_entry line) = timestamp_search line"
  by (simp add: parse_log_entry_def Let_def split: option.splits prod.splits)










text \<open>
  C2, as the code has it. When no severity keyword is matched the severity is UNKNOWN; the
  message is the raw line itself, untouched, when the line has no component bracket, and
  otherwise the text after the first \<^verbatim>\<open>]:\<close> of the line (the whole line when there is
  none), trimmed.
\<close>

theorem C2_message_without_severity:
  assumes "severity_search None line = None"
  shows "severity (parse_log_entry line) = ''UNKNOWN'' \<and>
         (component_search line = None \<longrightarrow> message (parse_log_entry line) = line) \<and>
         (component_search line \<noteq> None \<longrightarrow>
            message (parse_log_entry line) = strip (split_last '']:'' line))"
  using assms by (auto simp: parse_severity parse_message remainder_of_def)

theorem C2_message_without_severity_witness:
  "severity_search None ''hello [Comp]: world'' = None \<and>
   component_search ''hello [Comp]: world'' \<noteq> None \<and>
   severity (parse_log_entry ''hello [Comp]: world'') = ''UNKNOWN'' \<and>
   message (parse_log_entry ''hello [Comp]: world'') =
     strip (split_last '']:'' ''hello [Comp]: world'') \<and>
   severity_search None '' plain text '' = None \<and>
   component_search '' plain text '' = None \<and>
   message (parse_log_entry '' plain text '') = '' plain text ''"
proof -
  have h1: "severity_search None ''hello [Comp]: world'' = None"
    by code_simp
  have h2: "component_search ''hello [Comp]: world'' \<noteq> None"
    by code_simp
  have h3: "severity_search None '' plain text '' = None"
    by code_simp
  have h4: "component_search '' plain text '' = None"
    by code_simp
  from C2_message_without_severity [OF h1] C2_message_without_severity [OF h3] h1 h2 h3 h4
  show ?thesis
    by simp
qed

text \<open>
  C2 as stated fails: \<^verbatim>\<open>hello [Comp]: world\<close> has no severity keyword and its message is
  \<^verbatim>\<open>world\<close>, not the line; and a line without a bracket keeps its surrounding whitespace.
\<close>

theorem C2_counterexample:
  "severity_search None ''hello [Comp]: world'' = None \<and>
   severity (parse_log_entry ''hello [Comp]: world'') = ''UNKNOWN'' \<and>
   message (parse_log_entry ''hello [Comp]: world'') = ''world'' \<and>
   message (parse_log_entry ''hello [Comp]: world'') \<noteq> strip ''hello [Comp]: world'' \<and>
   message (parse_log_entry '' plain text '') \<noteq> strip '' plain text ''"
  by code_simp

text \<open>
  C4 at a line where the text of the matched severity token also occurs earlier, inside
  another word. The pattern matches the free-standing \<^verbatim>\<open>ERROR\<close>, and the text after that
  match holds the bracket \<^verbatim>\<open>[db]\<close>; the split on the token's text cuts at the first
  occurrence, inside \<^verbatim>\<open>ERRORHANDLER\<close>, and the component comes from \<^verbatim>\<open>[net]\<close>, which
  stands before the matched token.
\<close>

theorem C4_component_before_severity_token:
  "severity_search None ''handler=ERRORHANDLER [net] ERROR [db]: failed'' =
     Some (''ERROR'', '' [db]: failed'') \<and>
   remainder_of ''handler=ERRORHANDLER [net] ERROR [db]: failed'' =
     ''HANDLER [net] ERROR [db]: failed'' \<and>
   component (parse_log_entry ''handler=ERRORHANDLER [net] ERROR [db]: failed'') =
     Some ''net'' \<and>
   map_option fst (component_search '' [db]: failed'') = Some ''db''"
  by code_simp

lemma upper_lower_char: "upper_char (lower_char c) = upper_char c"
  by (simp add: upper_char_def lower_char_def char_defs)

lemma lit_ci_upper: "lit_ci k c \<Longrightarrow> upper_char c = upper_char k"
  by (metis lit_ci_def upper_lower_char)

lemma match_seq_lit_ci:
  "match_seq (map lit_ci kw) s = Some (tok, rest) \<Longrightarrow> upper tok = upper kw"
proof (induction kw arbitrary: s tok)
  case Nil
  then show ?case by (simp add: upper_def)
next
  case (Cons k kw)
  then show ?case
    by (cases s) (auto simp: upper_def lit_ci_upper split: if_splits option.splits)
qed

lemma severity_alts_upper:
  "severity_alts kws s = Some (tok, rest) \<Longrightarrow> upper tok \<in> upper ` set kws"
  by (induction kws) (auto split: option.splits if_splits dest: match_seq_lit_ci)

lemma upper_SEVERITIES: "upper ` set SEVERITIES = set SEVERITIES"
  by (simp add: SEVERITIES_def upper_def upper_char_def char_defs)

lemma severity_search_upper:
  "severity_search prev line = Some (tok, rest) \<Longrightarrow> upper tok \<in> set SEVERITIES"
proof (induction line arbitrary: prev)
  case Nil
  then show ?case by simp
next
  case (Cons c cs)
  show ?case
  proof (cases "severity_at prev (c # cs)")
    case None
    with Cons show ?thesis by simp
  next
    case (Some m)
    with Cons.prems have "severity_alts SEVERITIES (c # cs) = Some (tok, rest)"
      by (simp add: severity_at_def split: if_splits)
    then show ?thesis
      using severity_alts_upper upper_SEVERITIES by blast
  qed
qed

lemma match_seq_sound:
  "match_seq ps s = Some (m, r) \<Longrightarrow> s = m @ r \<and> list_all2 (\<lambda>p c. p c) ps m"
proof (induction ps s arbitrary: m rule: match_seq.induct)
  case (1 s)
  then show ?case by simp
next
  case (2 p ps)
  then show ?case by simp
next
  case (3 p ps c cs)
  then show ?case
    by (auto split: if_splits option.splits)
qed

lemma match_seq_lit_ci_all2:
  "match_seq (map lit_ci kw) s = Some (tok, rest) \<Longrightarrow> list_all2 lit_ci kw tok"
  using match_seq_sound [of "map lit_ci kw" s tok rest] by (simp add: list_all2_map1)

lemma list_all2_lit_ci_upper: "list_all2 lit_ci kw tok \<Longrightarrow> upper tok = upper kw"
  by (induction rule: list_all2_induct) (auto simp: upper_def lit_ci_upper)

lemma severity_alts_keyword:
  "severity_alts kws s = Some (tok, rest) \<Longrightarrow> \<exists>kw\<in>set kws. list_all2 lit_ci kw tok"
  by (induction kws) (auto split: option.splits if_splits dest: match_seq_lit_ci_all2)

lemma severity_search_keyword:
  "severity_search prev line = Some (tok, rest) \<Longrightarrow>
   \<exists>kw\<in>set SEVERITIES. list_all2 lit_ci kw tok"
proof (induction line arbitrary: prev)
  case Nil
  then show ?case by simp
next
  case (Cons c cs)
  show ?case
  proof (cases "severity_at prev (c # cs)")
    case None
    with Cons show ?thesis by simp
  next
    case (Some m)
    with Cons.prems have "severity_alts SEVERITIES (c # cs) = Some (tok, rest)"
      by (simp add: severity_at_def split: if_splits)
    then show ?thesis
      by (rule severity_alts_keyword)
  qed
qed

lemma upper_UNKNOWN: "upper ''UNKNOWN'' = ''UNKNOWN''"
  by (simp add: upper_def upper_char_def char_defs)

lemma UNKNOWN_not_keyword: "''UNKNOWN'' \<notin> set SEVERITIES"
  by (simp add: SEVERITIES_def)

text \<open>
  C10. Whatever the severity search matches is one of the seven keywords up to letter case,
  and never the word UNKNOWN in any case; a token of ASCII letters is, upper-cased, the
  keyword itself. The severity is UNKNOWN exactly when the search finds nothing; the
  remainder is then the line itself, and the component is the first bracket of the full
  line.
\<close>

theorem C10_only_seven_keywords:
  "(severity_search prev line = Some (tok, rest) \<longrightarrow>
      (\<exists>kw\<in>set SEVERITIES. list_all2 lit_ci kw tok) \<and>
      \<not> list_all2 lit_ci ''UNKNOWN'' tok \<and>
      upper tok \<noteq> ''UNKNOWN'' \<and>
      ((\<forall>c\<in>set tok. c \<in> set (lowers @ uppers)) \<longrightarrow> upper tok \<in> set SEVERITIES)) \<and>
   (severity (parse_log_entry line) = ''UNKNOWN'' \<longleftrightarrow> severity_search None line = None) \<and>
   (severity_search None line = None \<longrightarrow>
      remainder_of line = line \<and>
      component (parse_log_entry line) = map_option fst (component_search line))"
proof -
  have matched: "(\<exists>kw\<in>set SEVERITIES. list_all2 lit_ci kw t) \<and>
      \<not> list_all2 lit_ci ''UNKNOWN'' t \<and> upper t \<noteq> ''UNKNOWN'' \<and> upper t \<in> set SEVERITIES"
    if "severity_search p line = Some (t, r)" for p t r
  proof -
    from that have kw: "\<exists>kw\<in>set SEVERITIES. list_all2 lit_ci kw t"
      by (rule severity_search_keyword)
    from that have up: "upper t \<in> set SEVERITIES"
      by (rule severity_search_upper)
    with UNKNOWN_not_keyword have ne: "upper t \<noteq> ''UNKNOWN''"
      by metis
    then have "\<not> list_all2 lit_ci ''UNKNOWN'' t"
      using list_all2_lit_ci_upper [of "''UNKNOWN''" t] upper_UNKNOWN by metis
    with kw up ne show ?thesis by blast
  qed
  have default: "severity (parse_log_entry line) = ''UNKNOWN'' \<longleftrightarrow>
      severity_search None line = None"
  proof (cases "severity_search None line")
    case None
    then show ?thesis by (simp add: parse_severity)
  next
    case (Some m)
    obtain t r where m: "m = (t, r)" by (cases m)
    with Some matched [of None t r] show ?thesis
      by (simp add: parse_severity)
  qed
  have full: "severity_search None line = None \<longrightarrow>
      remainder_of line = line \<and>
      component (parse_log_entry line) = map_option fst (component_search line)"
    by (simp add: parse_component remainder_of_def)
  from matched [of prev tok rest] default full show ?thesis
    by blast
qed

theorem C10_only_seven_keywords_witness:
  "severity_search None ''UNKNOWN [db]: lost'' = None \<and>
   severity (parse_log_entry ''UNKNOWN [db]: lost'') = ''UNKNOWN'' \<and>
   remainder_of ''UNKNOWN [db]: lost'' = ''UNKNOWN [db]: lost'' \<and>
   component (parse_log_entry ''UNKNOWN [db]: lost'') = Some ''db'' \<and>
   severity_search None ''unknown Warn [x]'' = Some (''Warn'', '' [x]'') \<and>
   upper ''Warn'' \<in> set SEVERITIES \<and> upper ''Warn'' \<noteq> ''UNKNOWN'' \<and>
   severity (parse_log_entry ''unknown Warn [x]'') \<noteq> ''UNKNOWN''"
proof -
  have h1: "severity_search None ''UNKNOWN [db]: lost'' = None"
    by code_simp
  have h2: "map_option fst (component_search ''UNKNOWN [db]: lost'') = Some ''db''"
    by code_simp
  have h3: "severity_search None ''unknown Warn [x]'' = Some (''Warn'', '' [x]'')"
    by code_simp
  have h4: "\<forall>c\<in>set ''Warn''. c \<in> set (lowers @ uppers)"
    by (simp add: lowers_def uppers_def)
  from C10_only_seven_keywords [of None "''UNKNOWN [db]: lost''"]
    C10_only_seven_keywords [of None "''unknown Warn [x]''" "''Warn''" "'' [x]''"] h1 h2 h3 h4
  show ?thesis
    by simp
qed

section \<open>Properties of the pattern normalizer\<close>

text \<open>
  C5. The pattern is the number mask applied to the result of the identifier mask; on the
  spec's example the identifier is masked whole. In the other order the digits of the
  identifier are masked first and no identifier is left to match.
\<close>

theorem C5_id_mask_before_num_mask:
  "normalize_msg m = sub_num (sub_id None m) \<and>
   normalize_msg ''conn-id a1b2c3d4e5 failed after 30 retries'' =
     ''conn-id <ID> failed after <NUM> retries'' \<and>
   sub_id None (sub_num ''conn-id a1b2c3d4e5 failed after 30 retries'') =
     ''conn-id a<NUM>b<NUM>c<NUM>d<NUM>e<NUM> failed after <NUM> retries''"
proof -
  have "normalize_msg ''conn-id a1b2c3d4e5 failed after 30 retries'' =
     ''conn-id <ID> failed after <NUM> retries''"
    by code_simp
  moreover have "sub_id None (sub_num ''conn-id a1b2c3d4e5 failed after 30 retries'') =
     ''conn-id a<NUM>b<NUM>c<NUM>d<NUM>e<NUM> failed after <NUM> retries''"
    by code_simp
  ultimately show ?thesis
    by (simp add: normalize_msg_def)
qed

lemma hex_lower_id_char: "is_hex_lower c \<Longrightarrow> is_id_char c"
  by (auto simp: is_hex_lower_def is_id_char_def)

lemma hex_lower_word_char: "is_hex_lower c \<Longrightarrow> is_word_char c"
  by (auto simp: is_hex_lower_def is_word_char_def char_defs)

lemma id_char_cases: "is_id_char c \<Longrightarrow> is_word_char c \<or> c = CHR ''-''"
  by (auto simp: is_id_char_def is_word_char_def char_defs)

lemma id_match_no_boundary: "\<not> word_boundary prev s \<Longrightarrow> id_match prev s = None"
  by (simp add: id_match_def)

lemma id_match_not_id_char: "\<not> is_id_char c \<Longrightarrow> id_match prev (c # cs) = None"
  by (simp add: id_match_def)

text \<open>Inside a word there is no word boundary, so the scan copies the rest of the word.\<close>

lemma sub_id_inside_word:
  "\<forall>c\<in>set w. is_word_char c \<Longrightarrow> is_word_char p \<Longrightarrow>
   sub_id (Some p) (w @ rest) = w @ sub_id (last_char (Some p) w) rest"
proof (induction w arbitrary: p)
  case Nil
  then show ?case by (simp add: last_char_def)
next
  case (Cons c w)
  have "\<not> word_boundary (Some p) ((c # w) @ rest)"
    using Cons.prems by (simp add: word_boundary_def)
  then have "id_match (Some p) (c # w @ rest) = None"
    by (simp add: id_match_no_boundary)
  then have "sub_id (Some p) ((c # w) @ rest) = c # sub_id (Some c) (w @ rest)"
    by simp
  also have "\<dots> = c # w @ sub_id (last_char (Some c) w) rest"
    using Cons.IH [of c] Cons.prems by simp
  finally show ?case
    by (simp add: last_char_def)
qed

lemma sub_id_keeps_word:
  assumes "\<forall>c\<in>set w. is_word_char c" and "w \<noteq> []" and "\<not> is_id_char (hd w)"
  shows "sub_id prev (w @ rest) = w @ sub_id (Some (last w)) rest"
proof -
  from assms(2) obtain c w' where w: "w = c # w'"
    by (cases w) auto
  with assms(3) have "id_match prev (c # w' @ rest) = None"
    by (simp add: id_match_not_id_char)
  then have "sub_id prev (w @ rest) = c # sub_id (Some c) (w' @ rest)"
    by (simp add: w)
  also have "\<dots> = c # w' @ sub_id (last_char (Some c) w') rest"
    using sub_id_inside_word [of w' c rest] assms(1) by (simp add: w)
  finally show ?thesis
    by (simp add: w last_char_def)
qed

lemma sub_id_masks_word:
  assumes hex: "\<forall>c\<in>set w. is_hex_lower c" and len: "8 \<le> length w"
    and before: "\<not> (case prev of None \<Rightarrow> False | Some p \<Rightarrow> is_word_char p)"
    and after: "rest = [] \<or> (\<not> is_word_char (hd rest) \<and> hd rest \<noteq> CHR ''-'')"
  shows "sub_id prev (w @ rest) = ''<ID>'' @ sub_id (Some (last w)) rest"
proof -
  from len obtain c w' where w: "w = c # w'"
    by (cases w) auto
  have run: "takeWhile is_id_char (w @ rest) = w"
  proof (cases rest)
    case Nil
    with hex show ?thesis by (simp add: hex_lower_id_char)
  next
    case (Cons r rs)
    with after have "\<not> is_id_char r"
      using id_char_cases by auto
    with hex Cons show ?thesis
      by (simp add: hex_lower_id_char takeWhile_append2 cong: takeWhile_cong)
  qed
  have start: "word_boundary prev (w @ rest)"
    using before hex by (cases prev) (auto simp: word_boundary_def w hex_lower_word_char)
  have "is_word_char (last w)"
    using hex w hex_lower_word_char by (metis last_in_set list.distinct(1))
  then have stop:
    "word_boundary (last_char prev (take (length w) (w @ rest))) (drop (length w) (w @ rest))"
    using after by (cases rest) (auto simp: word_boundary_def last_char_def w)
  have "rev [8 ..< Suc (length w)] = length w # rev [8 ..< length w]"
    using len by simp
  then have "id_match prev (w @ rest) = Some (length w)"
    using start stop by (simp add: id_match_def run del: upt_Suc)
  then have "sub_id prev (c # w' @ rest) =
      ''<ID>'' @ sub_id (last_char prev (take (length w) (w @ rest))) (drop (length w) (w @ rest))"
    by (simp add: w)
  then show ?thesis
    by (simp add: w last_char_def)
qed

lemma find_rev_upt_Some:
  "find P (rev [a ..< b]) = Some n \<longleftrightarrow>
     a \<le> n \<and> n < b \<and> P n \<and> (\<forall>m. n < m \<and> m < b \<longrightarrow> \<not> P m)"
proof (induction b)
  case 0
  then show ?case by simp
next
  case (Suc b)
  show ?case
  proof (cases "a \<le> b")
    case False
    then show ?thesis by auto
  next
    case True
    show ?thesis
    proof (cases "P b")
      case True
      with \<open>a \<le> b\<close> show ?thesis
        by (auto simp: less_Suc_eq)
    next
      case False
      with \<open>a \<le> b\<close> Suc.IH show ?thesis
        by (auto simp: less_Suc_eq)
    qed
  qed
qed

lemma find_rev_upt_None:
  "find P (rev [a ..< b]) = None \<longleftrightarrow> (\<forall>n. a \<le> n \<and> n < b \<longrightarrow> \<not> P n)"
  by (auto simp: find_None_iff)

lemma le_length_takeWhile:
  "n \<le> length (takeWhile Q s) \<longleftrightarrow> n \<le> length s \<and> (\<forall>c\<in>set (take n s). Q c)"
proof (induction s arbitrary: n)
  case Nil
  then show ?case by simp
next
  case (Cons x s)
  then show ?case by (cases n) auto
qed

lemma id_pattern_matches_iff:
  "id_pattern_matches prev s n \<longleftrightarrow>
     word_boundary prev s \<and> 8 \<le> n \<and> n < Suc (length (takeWhile is_id_char s)) \<and>
     word_boundary (last_char prev (take n s)) (drop n s)"
  unfolding id_pattern_matches_def less_Suc_eq_le le_length_takeWhile
  by (auto simp: is_id_char_def)

lemma id_match_Some_iff:
  "id_match prev s = Some n \<longleftrightarrow>
     id_pattern_matches prev s n \<and> (\<forall>m. n < m \<longrightarrow> \<not> id_pattern_matches prev s m)"
  unfolding id_pattern_matches_iff id_match_def
  by (auto simp: find_rev_upt_Some simp del: upt_Suc)

lemma id_match_None_iff:
  "id_match prev s = None \<longleftrightarrow> (\<forall>n. \<not> id_pattern_matches prev s n)"
  unfolding id_pattern_matches_iff id_match_def
  by (auto simp: find_rev_upt_None simp del: upt_Suc)

lemma sub_id_no_match:
  "\<forall>n. \<not> id_pattern_matches prev (c # cs) n \<Longrightarrow> sub_id prev (c # cs) = c # sub_id (Some c) cs"
  using id_match_None_iff [of prev "c # cs"] by simp

lemma sub_id_match:
  assumes "id_pattern_matches prev s n" and "\<forall>m. n < m \<longrightarrow> \<not> id_pattern_matches prev s m"
  shows "sub_id prev s = ''<ID>'' @ sub_id (last_char prev (take n s)) (drop n s)"
proof -
  from assms have m: "id_match prev s = Some n"
    by (simp add: id_match_Some_iff)
  from assms(1) obtain c cs where "s = c # cs"
    by (cases s) (auto simp: id_pattern_matches_def)
  with m show ?thesis by simp
qed

lemma id_pattern_matches_run:
  "id_pattern_matches prev s n \<Longrightarrow> n \<le> length (takeWhile is_id_char s)"
  by (simp add: id_pattern_matches_iff)

text \<open>
  C3, as the code has it. The identifier mask scans the message from left to right. Where
  the pattern \<^verbatim>\<open>\b[a-f0-9\-]{8,}\b\<close>, read case-sensitively, matches, the longest match
  is replaced by the identifier token and the scan goes on after it; where it does not
  match, the character is copied and the scan moves one character on. So a word of eight
  or more lower-case hexadecimal digits that stands alone is replaced, and a word whose
  first character is outside the class, an upper-case letter for instance, is copied
  unchanged and its digits are left for the number mask.
\<close>

theorem C3_id_mask_case_sensitive:
  "sub_id prev [] = [] \<and>
   ((\<forall>n. \<not> id_pattern_matches prev (c # cs) n) \<longrightarrow>
      sub_id prev (c # cs) = c # sub_id (Some c) cs) \<and>
   (id_pattern_matches prev s n \<and> (\<forall>m. n < m \<longrightarrow> \<not> id_pattern_matches prev s m) \<longrightarrow>
      sub_id prev s = ''<ID>'' @ sub_id (last_char prev (take n s)) (drop n s)) \<and>
   ((\<forall>c\<in>set w. is_hex_lower c) \<and> 8 \<le> length w \<and>
    \<not> (case prev of None \<Rightarrow> False | Some p \<Rightarrow> is_word_char p) \<and>
    (rest = [] \<or> (\<not> is_word_char (hd rest) \<and> hd rest \<noteq> CHR ''-'')) \<longrightarrow>
      sub_id prev (w @ rest) = ''<ID>'' @ sub_id (Some (last w)) rest) \<and>
   ((\<forall>c\<in>set w. is_word_char c) \<and> w \<noteq> [] \<and> \<not> is_id_char (hd w) \<longrightarrow>
      sub_id prev (w @ rest) = w @ sub_id (Some (last w)) rest)"
proof -
  have scan: "(\<forall>n. \<not> id_pattern_matches prev (c # cs) n) \<longrightarrow>
      sub_id prev (c # cs) = c # sub_id (Some c) cs"
    using sub_id_no_match [of prev c cs] by blast
  have mask: "id_pattern_matches prev s n \<and> (\<forall>m. n < m \<longrightarrow> \<not> id_pattern_matches prev s m) \<longrightarrow>
      sub_id prev s = ''<ID>'' @ sub_id (last_char prev (take n s)) (drop n s)"
    using sub_id_match [of prev s n] by blast
  have hex: "(\<forall>c\<in>set w. is_hex_lower c) \<and> 8 \<le> length w \<and>
    \<not> (case prev of None \<Rightarrow> False | Some p \<Rightarrow> is_word_char p) \<and>
    (rest = [] \<or> (\<not> is_word_char (hd rest) \<and> hd rest \<noteq> CHR ''-'')) \<longrightarrow>
      sub_id prev (w @ rest) = ''<ID>'' @ sub_id (Some (last w)) rest"
    using sub_id_masks_word [where w = w and prev = prev and rest = rest] by blast
  have keep: "(\<forall>c\<in>set w. is_word_char c) \<and> w \<noteq> [] \<and> \<not> is_id_char (hd w) \<longrightarrow>
      sub_id prev (w @ rest) = w @ sub_id (Some (last w)) rest"
    using sub_id_keeps_word [where w = w and prev = prev and rest = rest] by blast
  have "sub_id prev [] = []"
    by simp
  with scan mask hex keep show ?thesis
    by (intro conjI)
qed

theorem C3_id_mask_case_sensitive_witness:
  "sub_id None ''deadbeef12'' = ''<ID>'' \<and>
   sub_id None ''DEADBEEF12'' = ''DEADBEEF12'' \<and>
   sub_id (Some CHR '' '') ''deadbeef12 failed'' = ''<ID>'' @ sub_id (Some CHR ''2'') '' failed'' \<and>
   id_pattern_matches (Some CHR '' '') ''550e8400-e29b-41d4-a716-446655440000 done'' 36 \<and>
   sub_id (Some CHR '' '') ''550e8400-e29b-41d4-a716-446655440000 done'' =
     ''<ID>'' @ sub_id (last_char (Some CHR '' '') (take 36 ''550e8400-e29b-41d4-a716-446655440000 done''))
       (drop 36 ''550e8400-e29b-41d4-a716-446655440000 done'') \<and>
   sub_id None ''abc1234 x'' = CHR ''a'' # sub_id (Some CHR ''a'') ''bc1234 x'' \<and>
   sub_id None ''req 550e8400-e29b-41d4-a716-446655440000 done'' = ''req <ID> done'' \<and>
   sub_id None ''abc1234 x'' = ''abc1234 x''"
proof -
  have h1: "\<forall>c\<in>set ''deadbeef12''. is_hex_lower c"
    by (simp add: is_hex_lower_def)
  have h2: "\<forall>c\<in>set ''DEADBEEF12''. is_word_char c"
    by (simp add: is_word_char_def char_defs)
  have h3: "\<not> is_id_char (hd ''DEADBEEF12'')"
    by (simp add: is_id_char_def)
  have h4: "\<not> is_word_char CHR '' ''"
    by (simp add: is_word_char_def char_defs)
  from C3_id_mask_case_sensitive [where w = "''deadbeef12''" and prev = None and rest = "[]"]
    C3_id_mask_case_sensitive [where w = "''DEADBEEF12''" and prev = None and rest = "[]"]
    C3_id_mask_case_sensitive [where w = "''deadbeef12''" and prev = "Some CHR '' ''"
      and rest = "'' failed''"]
    h1 h2 h3 h4
  have words: "sub_id None ''deadbeef12'' = ''<ID>'' \<and>
     sub_id None ''DEADBEEF12'' = ''DEADBEEF12'' \<and>
     sub_id (Some CHR '' '') ''deadbeef12 failed'' = ''<ID>'' @ sub_id (Some CHR ''2'') '' failed''"
    by simp
  have u1: "id_pattern_matches (Some CHR '' '') ''550e8400-e29b-41d4-a716-446655440000 done'' 36"
    by code_simp
  have "length (takeWhile is_id_char ''550e8400-e29b-41d4-a716-446655440000 done'') = 36"
    by code_simp
  then have u2: "\<forall>m. 36 < m \<longrightarrow>
      \<not> id_pattern_matches (Some CHR '' '') ''550e8400-e29b-41d4-a716-446655440000 done'' m"
    using id_pattern_matches_run [of "Some CHR '' ''" "''550e8400-e29b-41d4-a716-446655440000 done''"]
    by fastforce
  from C3_id_mask_case_sensitive [where prev = "Some CHR '' ''" and n = 36
      and s = "''550e8400-e29b-41d4-a716-446655440000 done''"]
  have "id_pattern_matches (Some CHR '' '') ''550e8400-e29b-41d4-a716-446655440000 done'' 36 \<and>
      (\<forall>m. 36 < m \<longrightarrow> \<not> id_pattern_matches (Some CHR '' '') ''550e8400-e29b-41d4-a716-446655440000 done'' m) \<longrightarrow>
      sub_id (Some CHR '' '') ''550e8400-e29b-41d4-a716-446655440000 done'' =
        ''<ID>'' @ sub_id (last_char (Some CHR '' '') (take 36 ''550e8400-e29b-41d4-a716-446655440000 done''))
          (drop 36 ''550e8400-e29b-41d4-a716-446655440000 done'')"
    by (rule conjunct2 [THEN conjunct2, THEN conjunct1])
  with u1 u2 have uuid: "sub_id (Some CHR '' '') ''550e8400-e29b-41d4-a716-446655440000 done'' =
        ''<ID>'' @ sub_id (last_char (Some CHR '' '') (take 36 ''550e8400-e29b-41d4-a716-446655440000 done''))
          (drop 36 ''550e8400-e29b-41d4-a716-446655440000 done'')"
    by blast
  have "length (takeWhile is_id_char ''abc1234 x'') = 7"
    by code_simp
  then have s1: "\<forall>n. \<not> id_pattern_matches None ''abc1234 x'' n"
    using id_pattern_matches_run [of None "''abc1234 x''"]
    by (fastforce simp: id_pattern_matches_def)
  from C3_id_mask_case_sensitive [where prev = None and c = "CHR ''a''" and cs = "''bc1234 x''"]
  have "(\<forall>n. \<not> id_pattern_matches None ''abc1234 x'' n) \<longrightarrow>
      sub_id None ''abc1234 x'' = CHR ''a'' # sub_id (Some CHR ''a'') ''bc1234 x''"
    by (rule conjunct2 [THEN conjunct1])
  with s1 have short: "sub_id None ''abc1234 x'' = CHR ''a'' # sub_id (Some CHR ''a'') ''bc1234 x''"
    by (rule rev_mp)
  have whole: "sub_id None ''req 550e8400-e29b-41d4-a716-446655440000 done'' = ''req <ID> done''"
    by code_simp
  have short_whole: "sub_id None ''abc1234 x'' = ''abc1234 x''"
    by code_simp
  from words u1 uuid short whole short_whole show ?thesis
    by (intro conjI) blast+
qed

text \<open>
  C3 as stated fails: the upper-case word \<^verbatim>\<open>DEADBEEF12\<close> is not replaced by the
  identifier token; the number mask then turns its digits into the number token. The same
  holds inside a message that is long enough to be normalized.
\<close>

theorem C3_counterexample:
  "sub_id None ''DEADBEEF12'' = ''DEADBEEF12'' \<and>
   sub_id None ''DEADBEEF12'' \<noteq> ''<ID>'' \<and>
   normalize_msg ''DEADBEEF12'' = ''DEADBEEF<NUM>'' \<and>
   10 < length ''request DEADBEEF12 failed'' \<and>
   sub_id None ''request DEADBEEF12 failed'' = ''request DEADBEEF12 failed'' \<and>
   normalize_msg ''request DEADBEEF12 failed'' = ''request DEADBEEF<NUM> failed''"
  by code_simp

section \<open>Properties of the aggregator\<close>

text \<open>
  C7. On the empty batch the aggregation returns zero entries, empty severity and component
  maps, no time pattern and no error patterns.
\<close>

theorem C7_empty_batch:
  "analyze_log_entries [] =
     \<lparr>total_entries = 0, severity_distribution = [], components = [],
      time_pattern = None, error_patterns = []\<rparr>"
  by (simp add: analyze_log_entries_def acc_init_def time_pattern_of_def most_common_def
      Counter_def error_pattern_keys_def)

lemma counter_inc_keys:
  "map fst (counter_inc k c) = (if k \<in> set (map fst c) then map fst c else map fst c @ [k])"
  by (induction c) force+

lemma Counter_snoc: "Counter (xs @ [x]) = counter_inc x (Counter xs)"
  by (simp add: Counter_def)

lemma Counter_keys_set: "set (map fst (Counter xs)) = set xs"
proof (induction xs rule: rev_induct)
  case Nil
  then show ?case by (simp add: Counter_def)
next
  case (snoc x xs)
  then show ?case
    by (auto simp: Counter_snoc counter_inc_keys simp del: set_map)
qed

lemma first_seen_append: "a \<in> set xs \<Longrightarrow> first_seen (xs @ ys) a = first_seen xs a"
  by (simp add: first_seen_def)

lemma first_seen_less: "a \<in> set xs \<Longrightarrow> first_seen xs a < length xs"
  unfolding first_seen_def by (induction xs) auto

lemma first_seen_new: "x \<notin> set xs \<Longrightarrow> first_seen (xs @ [x]) x = length xs"
  unfolding first_seen_def by (induction xs) auto

lemma Counter_keys_order:
  "sorted_wrt (\<lambda>a b. first_seen xs a < first_seen xs b) (map fst (Counter xs))"
proof (induction xs rule: rev_induct)
  case Nil
  then show ?case by (simp add: Counter_def)
next
  case (snoc x xs)
  let ?K = "map fst (Counter xs)"
  have old: "sorted_wrt (\<lambda>a b. first_seen (xs @ [x]) a < first_seen (xs @ [x]) b) ?K"
  proof (rule sorted_wrt_mono_rel [OF _ snoc.IH])
    fix a b
    assume "a \<in> set ?K" "b \<in> set ?K" "first_seen xs a < first_seen xs b"
    then show "first_seen (xs @ [x]) a < first_seen (xs @ [x]) b"
      using Counter_keys_set [of xs] by (simp add: first_seen_append del: set_map)
  qed
  show ?case
  proof (cases "x \<in> set xs")
    case True
    with old show ?thesis
      using Counter_keys_set [of xs] by (simp add: Counter_snoc counter_inc_keys del: set_map)
  next
    case False
    have "\<forall>a\<in>set ?K. first_seen (xs @ [x]) a < first_seen (xs @ [x]) x"
      using Counter_keys_set [of xs] False
      by (auto simp: first_seen_append first_seen_new first_seen_less simp del: set_map)
    with old False show ?thesis
      using Counter_keys_set [of xs]
      by (simp add: Counter_snoc counter_inc_keys sorted_wrt_append del: set_map)
  qed
qed

lemma sorted_wrt_classes:
  "(\<And>k. sorted_wrt R (filter (\<lambda>y. f y = k) xs)) \<Longrightarrow>
   sorted_wrt (\<lambda>a b. f a = f b \<longrightarrow> R a b) xs"
proof (induction xs)
  case Nil
  then show ?case by simp
next
  case (Cons x xs)
  have "sorted_wrt R (filter (\<lambda>y. f y = k) xs)" for k
    using Cons.prems [of k] by (simp split: if_splits)
  then have tail: "sorted_wrt (\<lambda>a b. f a = f b \<longrightarrow> R a b) xs"
    by (rule Cons.IH)
  have "\<forall>y\<in>set xs. f x = f y \<longrightarrow> R x y"
    using Cons.prems [of "f x"] by auto
  with tail show ?case by simp
qed

lemma sort_key_stable_wrt:
  assumes "sorted_wrt R xs"
  shows "sorted_wrt (\<lambda>a b. f a = f b \<longrightarrow> R a b) (sort_key f xs)"
proof (rule sorted_wrt_classes)
  fix k
  have "sorted_wrt R (filter (\<lambda>y. f y = k) xs)"
    using assms by (rule sorted_wrt_filter)
  then show "sorted_wrt R (filter (\<lambda>y. f y = k) (sort_key f xs))"
    by (simp add: sort_key_stable)
qed

lemma most_common_length: "length (most_common n c) \<le> n"
  by (simp add: most_common_def)

lemma most_common_descending: "sorted_wrt (\<lambda>a b. snd b \<le> snd a) (most_common n c)"
proof -
  have "sorted (map (\<lambda>(k, cnt). - int cnt) (sort_key (\<lambda>(k, cnt). - int cnt) c))"
    by (rule sorted_sort_key)
  then have "sorted_wrt (\<lambda>a b. snd b \<le> snd a) (sort_key (\<lambda>(k, cnt). - int cnt) c)"
    by (simp add: sorted_wrt_map case_prod_beta)
  then show ?thesis
    unfolding most_common_def by (rule sorted_wrt_take)
qed

lemma most_common_ties:
  assumes "sorted_wrt R c"
  shows "sorted_wrt (\<lambda>a b. snd a = snd b \<longrightarrow> R a b) (most_common n c)"
proof -
  have "sorted_wrt (\<lambda>a b. (\<lambda>(k, cnt). - int cnt) a = (\<lambda>(k, cnt). - int cnt) b \<longrightarrow> R a b)
          (sort_key (\<lambda>(k, cnt). - int cnt) c)"
    using assms by (rule sort_key_stable_wrt)
  then have "sorted_wrt (\<lambda>a b. snd a = snd b \<longrightarrow> R a b) (sort_key (\<lambda>(k, cnt). - int cnt) c)"
    by (simp add: case_prod_beta)
  then show ?thesis
    unfolding most_common_def by (rule sorted_wrt_take)
qed

lemma error_patterns_eq:
  "error_patterns (analyze_log_entries entries) =
     map (\<lambda>((c, pat), n). \<lparr>ep_component = c, pattern = pat, count = n\<rparr>)
       (most_common 10 (Counter (pattern_keys entries)))"
  by (simp add: analyze_log_entries_def pattern_keys_def Let_def)

text \<open>
  C6. The returned error patterns are at most ten, their counts never increase along the
  list, and of two entries with the same count the first is the one whose (component,
  pattern) key was met first when the buffered messages were counted.
\<close>

theorem C6_top_ten_ranking:
  "length (error_patterns (analyze_log_entries entries)) \<le> 10 \<and>
   sorted_wrt (\<lambda>a b. count b \<le> count a) (error_patterns (analyze_log_entries entries)) \<and>
   sorted_wrt (\<lambda>a b. count a = count b \<longrightarrow>
       first_seen (pattern_keys entries) (ep_component a, pattern a) <
       first_seen (pattern_keys entries) (ep_component b, pattern b))
     (error_patterns (analyze_log_entries entries))"
proof -
  let ?keys = "pattern_keys entries"
  let ?top = "most_common 10 (Counter ?keys)"
  have len: "length ?top \<le> 10"
    by (rule most_common_length)
  have desc: "sorted_wrt (\<lambda>a b. snd b \<le> snd a) ?top"
    by (rule most_common_descending)
  have "sorted_wrt (\<lambda>a b. first_seen ?keys (fst a) < first_seen ?keys (fst b)) (Counter ?keys)"
    using Counter_keys_order [of ?keys] by (simp add: sorted_wrt_map)
  then have ties: "sorted_wrt (\<lambda>a b. snd a = snd b \<longrightarrow>
      first_seen ?keys (fst a) < first_seen ?keys (fst b)) ?top"
    by (rule most_common_ties)
  show ?thesis
    using len desc ties
    by (simp add: error_patterns_eq sorted_wrt_map case_prod_beta)
qed

theorem C6_top_ten_ranking_witness:
  "error_patterns (analyze_log_entries
     [\<lparr>file_path = ''app.log'', line_number = Some 1, content = ''ERROR [api]: Connection refused''\<rparr>,
      \<lparr>file_path = ''app.log'', line_number = Some 2, content = ''FATAL [db]: Authentication failed''\<rparr>,
      \<lparr>file_path = ''app.log'', line_number = Some 3, content = ''ERROR [api]: Disk failure on sda''\<rparr>]) =
     [\<lparr>ep_component = ''api'', pattern = ''Connection refused'', count = 1\<rparr>,
      \<lparr>ep_component = ''api'', pattern = ''Disk failure on sda'', count = 1\<rparr>,
      \<lparr>ep_component = ''db'', pattern = ''Authentication failed'', count = 1\<rparr>] \<and>
   first_seen (pattern_keys
     [\<lparr>file_path = ''app.log'', line_number = Some 1, content = ''ERROR [api]: Connection refused''\<rparr>,
      \<lparr>file_path = ''app.log'', line_number = Some 2, content = ''FATAL [db]: Authentication failed''\<rparr>,
      \<lparr>file_path = ''app.log'', line_number = Some 3, content = ''ERROR [api]: Disk failure on sda''\<rparr>])
     (''api'', ''Disk failure on sda'') <
   first_seen (pattern_keys
     [\<lparr>file_path = ''app.log'', line_number = Some 1, content = ''ERROR [api]: Connection refused''\<rparr>,
      \<lparr>file_path = ''app.log'', line_number = Some 2, content = ''FATAL [db]: Authentication failed''\<rparr>,
      \<lparr>file_path = ''app.log'', line_number = Some 3, content = ''ERROR [api]: Disk failure on sda''\<rparr>])
     (''db'', ''Authentication failed'')"
proof -
  let ?E = "[\<lparr>file_path = ''app.log'', line_number = Some 1, content = ''ERROR [api]: Connection refused''\<rparr>,
      \<lparr>file_path = ''app.log'', line_number = Some 2, content = ''FATAL [db]: Authentication failed''\<rparr>,
      \<lparr>file_path = ''app.log'', line_number = Some 3, content = ''ERROR [api]: Disk failure on sda''\<rparr>]"
  have ev: "error_patterns (analyze_log_entries ?E) =
     [\<lparr>ep_component = ''api'', pattern = ''Connection refused'', count = 1\<rparr>,
      \<lparr>ep_component = ''api'', pattern = ''Disk failure on sda'', count = 1\<rparr>,
      \<lparr>ep_component = ''db'', pattern = ''Authentication failed'', count = 1\<rparr>]"
    by code_simp
  from C6_top_ten_ranking [of ?E] show ?thesis
    unfolding ev by simp
qed

lemma counter_get_inc:
  "counter_get (counter_inc k c) s = (if s = k then counter_get c s + 1 else counter_get c s)"
  by (induction c) (auto simp: counter_get_def)

lemma step_severities:
  "severities (step a e) = counter_inc (severity (parse_log_entry (content e))) (severities a)"
  by (simp add: step_def Let_def split: option.splits)

lemma step_errors:
  "errors_by_component (step a e) =
     (case component (parse_log_entry (content e)) of
        Some c \<Rightarrow>
          if is_error_severity (severity (parse_log_entry (content e)))
          then dict_append c (message (parse_log_entry (content e))) (errors_by_component a)
          else errors_by_component a
      | None \<Rightarrow> errors_by_component a)"
  by (simp add: step_def Let_def split: option.splits)

lemma foldl_step_severities:
  "counter_get (severities (foldl step a es)) s =
     counter_get (severities a) s +
     length (filter (\<lambda>e. severity (parse_log_entry (content e)) = s) es)"
  by (induction es arbitrary: a) (auto simp: step_severities counter_get_inc)

lemma foldl_step_errors_filter:
  "errors_by_component a = errors_by_component a' \<Longrightarrow>
   errors_by_component (foldl step a es) =
     errors_by_component (foldl step a' (filter contributes es))"
proof (induction es arbitrary: a a')
  case Nil
  then show ?case by simp
next
  case (Cons e es)
  show ?case
  proof (cases "contributes e")
    case True
    have "errors_by_component (step a e) = errors_by_component (step a' e)"
      using Cons.prems by (simp add: step_errors split: option.splits)
    then show ?thesis
      using True Cons.IH by simp
  next
    case False
    then have "errors_by_component (step a e) = errors_by_component a'"
      using Cons.prems by (auto simp: step_errors contributes_def split: option.splits)
    then show ?thesis
      using False Cons.IH by simp
  qed
qed

lemma pattern_keys_filter: "pattern_keys (filter contributes es) = pattern_keys es"
  using foldl_step_errors_filter [of acc_init acc_init es] by (simp add: pattern_keys_def)

lemma dict_append_mem:
  "(c', ms') \<in> set (dict_append c m ebc) \<Longrightarrow>
   (c', ms') \<in> set ebc \<or>
   (c' = c \<and> (ms' = [m] \<or> (\<exists>ms. (c, ms) \<in> set ebc \<and> ms' = ms @ [m])))"
  by (induction ebc) (auto split: if_splits)

lemma buffered_dict_append:
  assumes "buffered (dict_append c m ebc) c' m'"
  shows "(c' = c \<and> m' = m) \<or> buffered ebc c' m'"
proof -
  from assms obtain ms' where ms': "(c', ms') \<in> set (dict_append c m ebc)" "m' \<in> set ms'"
    by (auto simp: buffered_def)
  from dict_append_mem [OF ms'(1)] ms'(2) show ?thesis
    by (auto simp: buffered_def)
qed

lemma buffered_step:
  "buffered (errors_by_component (step a e)) c m \<Longrightarrow>
   origin e c m \<or> buffered (errors_by_component a) c m"
  by (auto simp: step_errors origin_def split: option.splits if_splits
      dest: buffered_dict_append)

lemma buffered_foldl_step:
  "buffered (errors_by_component (foldl step a es)) c m \<Longrightarrow>
   (\<exists>e\<in>set es. origin e c m) \<or> buffered (errors_by_component a) c m"
proof (induction es arbitrary: a)
  case Nil
  then show ?case by simp
next
  case (Cons e es)
  from Cons.IH [of "step a e"] Cons.prems
  have "(\<exists>e\<in>set es. origin e c m) \<or> buffered (errors_by_component (step a e)) c m"
    by simp
  then show ?case
    using buffered_step [of a e c m] by auto
qed

lemma pattern_keys_origin:
  assumes "(c, p) \<in> set (pattern_keys es)"
  shows "\<exists>e\<in>set es. \<exists>m. origin e c m \<and> p = normalize_msg m \<and> 10 < length m"
proof -
  from assms obtain m where m: "buffered (errors_by_component (foldl step acc_init es)) c m"
      and p: "p = normalize_msg m" "10 < length m"
    by (auto simp: pattern_keys_def error_pattern_keys_def buffered_def)
  have "\<not> buffered (errors_by_component acc_init) c m"
    by (simp add: buffered_def acc_init_def)
  with m have "\<exists>e\<in>set es. origin e c m"
    using buffered_foldl_step by blast
  with p show ?thesis by blast
qed

lemma most_common_keys: "set (map fst (most_common n c)) \<subseteq> set (map fst c)"
proof -
  have "set (most_common n c) \<subseteq> set c"
    unfolding most_common_def using set_take_subset [of n "sort_key (\<lambda>(k, cnt). - int cnt) c"]
    by simp
  then show ?thesis by auto
qed

lemma error_patterns_keys:
  assumes "item \<in> set (error_patterns (analyze_log_entries es))"
  shows "(ep_component item, pattern item) \<in> set (pattern_keys es)"
proof -
  from assms obtain kv where kv: "kv \<in> set (most_common 10 (Counter (pattern_keys es)))"
      and item: "item = (\<lambda>((c, pat), n). \<lparr>ep_component = c, pattern = pat, count = n\<rparr>) kv"
    by (auto simp: error_patterns_eq)
  from kv have "fst kv \<in> set (map fst (Counter (pattern_keys es)))"
    using most_common_keys [of 10 "Counter (pattern_keys es)"] by auto
  then have "fst kv \<in> set (pattern_keys es)"
    by (simp only: Counter_keys_set)
  with item show ?thesis
    by (simp add: case_prod_beta)
qed

text \<open>
  C9. Every entry is counted in the total and under its severity. An entry whose parse has
  no component leaves the error buffers as they are; the error patterns of a batch are
  those of the entries that have both a component and an error severity; and every
  returned pattern is the normalized message, longer than ten characters, of such an entry
  with that component.
\<close>

theorem C9_entries_without_component:
  "total_entries (analyze_log_entries entries) = length entries \<and>
   counter_get (severity_distribution (analyze_log_entries entries)) s =
     length (filter (\<lambda>e. severity (parse_log_entry (content e)) = s) entries) \<and>
   (component (parse_log_entry (content e)) = None \<longrightarrow>
      errors_by_component (step a e) = errors_by_component a) \<and>
   error_patterns (analyze_log_entries entries) =
     error_patterns (analyze_log_entries (filter contributes entries)) \<and>
   (\<forall>item\<in>set (error_patterns (analyze_log_entries entries)).
      \<exists>e\<in>set entries.
        component (parse_log_entry (content e)) = Some (ep_component item) \<and>
        is_error_severity (severity (parse_log_entry (content e))) \<and>
        10 < length (message (parse_log_entry (content e))) \<and>
        pattern item = normalize_msg (message (parse_log_entry (content e))))"
proof -
  have total: "total_entries (analyze_log_entries entries) = length entries"
    by (simp add: analyze_log_entries_def Let_def)
  have "counter_get (severities acc_init) s = 0"
    by (simp add: acc_init_def counter_get_def)
  then have sev: "counter_get (severity_distribution (analyze_log_entries entries)) s =
     length (filter (\<lambda>e. severity (parse_log_entry (content e)) = s) entries)"
    by (simp add: analyze_log_entries_def Let_def foldl_step_severities)
  have skip: "component (parse_log_entry (content e)) = None \<longrightarrow>
      errors_by_component (step a e) = errors_by_component a"
    by (simp add: step_errors)
  have filt: "error_patterns (analyze_log_entries entries) =
     error_patterns (analyze_log_entries (filter contributes entries))"
    by (simp add: error_patterns_eq pattern_keys_filter)
  have prov: "\<forall>item\<in>set (error_patterns (analyze_log_entries entries)).
      \<exists>e\<in>set entries.
        component (parse_log_entry (content e)) = Some (ep_component item) \<and>
        is_error_severity (severity (parse_log_entry (content e))) \<and>
        10 < length (message (parse_log_entry (content e))) \<and>
        pattern item = normalize_msg (message (parse_log_entry (content e)))"
  proof
    fix item
    assume "item \<in> set (error_patterns (analyze_log_entries entries))"
    then have "(ep_component item, pattern item) \<in> set (pattern_keys entries)"
      by (rule error_patterns_keys)
    then obtain e m where "e \<in> set entries" "origin e (ep_component item) m"
        "pattern item = normalize_msg m" "10 < length m"
      using pattern_keys_origin by blast
    then show "\<exists>e\<in>set entries.
        component (parse_log_entry (content e)) = Some (ep_component item) \<and>
        is_error_severity (severity (parse_log_entry (content e))) \<and>
        10 < length (message (parse_log_entry (content e))) \<and>
        pattern item = normalize_msg (message (parse_log_entry (content e)))"
      unfolding origin_def by blast
  qed
  from total sev skip filt prov show ?thesis
    by (intro conjI)
qed

theorem C9_entries_without_component_witness:
  "total_entries (analyze_log_entries
     [\<lparr>file_path = ''app.log'', line_number = Some 1, content = ''ERROR no component in this line''\<rparr>,
      \<lparr>file_path = ''app.log'', line_number = Some 2, content = ''ERROR [db]: connection lost again''\<rparr>]) = 2 \<and>
   counter_get (severity_distribution (analyze_log_entries
     [\<lparr>file_path = ''app.log'', line_number = Some 1, content = ''ERROR no component in this line''\<rparr>,
      \<lparr>file_path = ''app.log'', line_number = Some 2, content = ''ERROR [db]: connection lost again''\<rparr>]))
     ''ERROR'' = 2 \<and>
   component (parse_log_entry (content
     \<lparr>file_path = ''app.log'', line_number = Some 1, content = ''ERROR no component in this line''\<rparr>)) = None \<and>
   errors_by_component (step acc_init
     \<lparr>file_path = ''app.log'', line_number = Some 1, content = ''ERROR no component in this line''\<rparr>) =
     errors_by_component acc_init \<and>
   error_patterns (analyze_log_entries
     [\<lparr>file_path = ''app.log'', line_number = Some 1, content = ''ERROR no component in this line''\<rparr>,
      \<lparr>file_path = ''app.log'', line_number = Some 2, content = ''ERROR [db]: connection lost again''\<rparr>]) =
   error_patterns (analyze_log_entries
     [\<lparr>file_path = ''app.log'', line_number = Some 2, content = ''ERROR [db]: connection lost again''\<rparr>])"
proof -
  let ?e1 = "\<lparr>file_path = ''app.log'', line_number = Some 1, content = ''ERROR no component in this line''\<rparr>"
  let ?e2 = "\<lparr>file_path = ''app.log'', line_number = Some 2, content = ''ERROR [db]: connection lost again''\<rparr>"
  have n: "length (filter (\<lambda>e. severity (parse_log_entry (content e)) = ''ERROR'') [?e1, ?e2]) = 2"
    by code_simp
  have c1: "component (parse_log_entry (content ?e1)) = None"
    by code_simp
  have f: "filter contributes [?e1, ?e2] = [?e2]"
    by code_simp
  have l: "length [?e1, ?e2] = 2"
    by simp
  note inst = C9_entries_without_component
    [where entries = "[?e1, ?e2]" and s = "''ERROR''" and e = ?e1 and a = acc_init]
  from inst have "total_entries (analyze_log_entries [?e1, ?e2]) = length [?e1, ?e2]"
    by (rule conjunct1)
  then have a1: "total_entries (analyze_log_entries [?e1, ?e2]) = 2"
    by (simp only: l)
  from inst have "counter_get (severity_distribution (analyze_log_entries [?e1, ?e2])) ''ERROR'' =
      length (filter (\<lambda>e. severity (parse_log_entry (content e)) = ''ERROR'') [?e1, ?e2])"
    by (rule conjunct2 [THEN conjunct1])
  then have a2: "counter_get (severity_distribution (analyze_log_entries [?e1, ?e2])) ''ERROR'' = 2"
    by (simp only: n)
  from inst have "component (parse_log_entry (content ?e1)) = None \<longrightarrow>
      errors_by_component (step acc_init ?e1) = errors_by_component acc_init"
    by (rule conjunct2 [THEN conjunct2, THEN conjunct1])
  with c1 have a3: "errors_by_component (step acc_init ?e1) = errors_by_component acc_init"
    by (rule rev_mp)
  from inst have "error_patterns (analyze_log_entries [?e1, ?e2]) =
      error_patterns (analyze_log_entries (filter contributes [?e1, ?e2]))"
    by (rule conjunct2 [THEN conjunct2, THEN conjunct2, THEN conjunct1])
  then have a4: "error_patterns (analyze_log_entries [?e1, ?e2]) =
      error_patterns (analyze_log_entries [?e2])"
    by (simp only: f)
  from a1 a2 c1 a3 a4 show ?thesis
    by (intro conjI)
qed

section \<open>Properties of the solution advisor\<close>

lemma any_pattern_iff:
  "(\<And>p. cond p \<Longrightarrow> p \<noteq> []) \<Longrightarrow> any_pattern cond ps \<longleftrightarrow> (\<exists>p\<in>set ps. cond p)"
  by (auto simp: any_pattern_def list_ex_iff)

lemma connection_rule_nonempty: "connection_rule p \<Longrightarrow> p \<noteq> []"
  by (auto simp: connection_rule_def)

lemma permission_rule_nonempty: "permission_rule p \<Longrightarrow> p \<noteq> []"
  by (auto simp: permission_rule_def)

lemma resource_rule_nonempty: "resource_rule p \<Longrightarrow> p \<noteq> []"
  by (auto simp: resource_rule_def)

lemma suggestions_distinct:
  "distinct [connection_issues, permission_issues, resource_limits, uncategorized]"
  by (simp add: connection_issues_def permission_issues_def resource_limits_def
      uncategorized_def)

lemma suggest_solutions_eq:
  "suggest_solutions a =
     (let s = (if \<exists>p\<in>set (lowered_patterns a). connection_rule p
               then [connection_issues] else []) @
              (if \<exists>p\<in>set (lowered_patterns a). permission_rule p
               then [permission_issues] else []) @
              (if \<exists>p\<in>set (lowered_patterns a). resource_rule p
               then [resource_limits] else [])
      in if s = [] then [uncategorized] else s)"
  unfolding suggest_solutions_def
  by (simp only: Let_def any_pattern_iff [OF connection_rule_nonempty]
      any_pattern_iff [OF permission_rule_nonempty] any_pattern_iff [OF resource_rule_nonempty])

text \<open>
  C8. Each of the three suggestions is in the result exactly when its own rule holds of
  some lower-cased pattern, whatever the other rules do; the connection rule is the
  presence of \<^verbatim>\<open>connect\<close> or \<^verbatim>\<open>timeout\<close>. When no rule holds, and so when there are no
  patterns, the result is the single fallback suggestion.
\<close>

theorem C8_rules_independent:
  "(connection_issues \<in> set (suggest_solutions a) \<longleftrightarrow>
      (\<exists>p\<in>set (lowered_patterns a). contains ''connect'' p \<or> contains ''timeout'' p)) \<and>
   (permission_issues \<in> set (suggest_solutions a) \<longleftrightarrow>
      (\<exists>p\<in>set (lowered_patterns a). permission_rule p)) \<and>
   (resource_limits \<in> set (suggest_solutions a) \<longleftrightarrow>
      (\<exists>p\<in>set (lowered_patterns a). resource_rule p)) \<and>
   ((\<forall>p\<in>set (lowered_patterns a).
        \<not> connection_rule p \<and> \<not> permission_rule p \<and> \<not> resource_rule p) \<longrightarrow>
      suggest_solutions a = [uncategorized]) \<and>
   (error_patterns a = [] \<longrightarrow> suggest_solutions a = [uncategorized])"
  using suggestions_distinct
  by (auto simp: suggest_solutions_eq Let_def connection_rule_def lowered_patterns_def)

theorem C8_rules_independent_witness:
  "suggest_solutions
     \<lparr>total_entries = 2, severity_distribution = [(''ERROR'', 2)], components = [(''db'', 2)],
      time_pattern = None,
      error_patterns =
        [\<lparr>ep_component = ''db'', pattern = ''Connection TIMEOUT after <NUM> ms'', count = 1\<rparr>,
         \<lparr>ep_component = ''db'', pattern = ''Disk quota exceeded'', count = 1\<rparr>]\<rparr> =
     [connection_issues, resource_limits] \<and>
   suggest_solutions (analyze_log_entries []) = [uncategorized]"
proof -
  let ?a = "\<lparr>total_entries = 2, severity_distribution = [(''ERROR'', 2)],
      components = [(''db'', 2)], time_pattern = None,
      error_patterns =
        [\<lparr>ep_component = ''db'', pattern = ''Connection TIMEOUT after <NUM> ms'', count = 1\<rparr>,
         \<lparr>ep_component = ''db'', pattern = ''Disk quota exceeded'', count = 1\<rparr>]\<rparr>"
  have pats: "lowered_patterns ?a = [''connection timeout after <num> ms'', ''disk quota exceeded'']"
    by code_simp
  have h1: "\<exists>p\<in>set (lowered_patterns ?a). contains ''connect'' p \<or> contains ''timeout'' p"
    unfolding pats by code_simp
  have h2: "\<not> (\<exists>p\<in>set (lowered_patterns ?a). permission_rule p)"
    unfolding pats by code_simp
  have h3: "\<exists>p\<in>set (lowered_patterns ?a). resource_rule p"
    unfolding pats by code_simp
  have h4: "error_patterns (analyze_log_entries []) = []"
    by code_simp
  have mem: "connection_issues \<in> set (suggest_solutions ?a)"
       "permission_issues \<notin> set (suggest_solutions ?a)"
       "resource_limits \<in> set (suggest_solutions ?a)"
    using C8_rules_independent [of ?a] h1 h2 h3 by blast+
  have fallback: "suggest_solutions (analyze_log_entries []) = [uncategorized]"
    using C8_rules_independent [of "analyze_log_entries []"] h4 by blast
  have "suggest_solutions ?a = [connection_issues, resource_limits]"
    by code_simp
  with mem fallback show ?thesis
    by simp
qed

end
